theory Spec2Isabelle
  imports Complex_Main
begin

section \<open>The ingestion worker of \<^verbatim>\<open>src/server/worker.js\<close>\<close>

text \<open>
  The worker is one asynchronous job processor and one helper,
  \<^verbatim>\<open>getEmbeddingDimension\<close>. Everything it does goes through collaborators: the file
  system, the JSON parser, the embedding provider, the index service, the PDF loader, the
  text splitter and the vector store. The model threads a \<open>world\<close> through the code: it
  holds what the collaborators answer, the state of the index service, and a trace of the
  calls the worker issued, in order. Exceptions are values: a computation returns
  \<open>Inl e\<close> where the JavaScript throws \<open>e\<close>. Console output is left out.
\<close>

subsection \<open>Data\<close>

text \<open>A JavaScript \<^verbatim>\<open>Error\<close>, by its message.\<close>

datatype error = JsError string

text \<open>
  The job payload: the fields the worker reads, each a string or absent
  (\<^verbatim>\<open>undefined\<close>). \<^verbatim>\<open>job.data\<close> is this object, or a string holding its JSON text.
\<close>

record fileInfo =
  path :: "string option"
  destination :: "string option"
  filename :: "string option"

datatype job_data = DataString string | DataObject fileInfo

text \<open>A loaded page or a chunk: the text and the page it comes from.\<close>

record document =
  pageContent :: string
  pageNumber :: nat

datatype distance = Cosine | Euclid | Dot

text \<open>
  \<^verbatim>\<open>config.params.vectors\<close> of a collection. \<open>vsize\<close> is \<^verbatim>\<open>vectors.size\<close>, absent
  (\<^verbatim>\<open>undefined\<close>) for a collection that has no single unnamed vector.
\<close>

record vectors_config =
  vsize :: "nat option"
  metric :: distance

text \<open>The calls the worker issues to its collaborators, as they appear in the trace.\<close>

datatype event =
    ExistsSync string
  | EmbedQuery string
  | GetCollections
  | GetCollection string
  | DeleteCollection string
  | CreateCollection string vectors_config
  | Load string
  | SplitDocuments "document list"
  | AddDocuments "document list"
  | Delay nat

text \<open>The value the processor returns on success.\<close>

record result =
  success :: bool
  docCount :: nat

text \<open>
  The world. The first six fields are what the collaborators answer when they answer;
  \<open>collections\<close> and \<open>points\<close> are the state of the index service (the configured
  collections by name, and the stored points, each with the name of its collection);
  \<open>faults\<close> is the schedule of collaborator failures: the call number \<open>n\<close> of a run
  throws \<open>e\<close> when \<open>faults n = Some e\<close>; \<open>clock\<close> counts the calls that can fail, and
  \<open>trace\<close> records every call.
\<close>

record world =
  fs_exists :: "string \<Rightarrow> bool"
  json_parse :: "string \<Rightarrow> error + fileInfo"
  path_join :: "string option \<Rightarrow> string option \<Rightarrow> error + string"
  embedding :: "string \<Rightarrow> real list"
  pdf_pages :: "string \<Rightarrow> document list"
  splitter :: "nat \<Rightarrow> nat \<Rightarrow> document list \<Rightarrow> document list"
  collections :: "(string \<times> vectors_config) list"
  points :: "(string \<times> document) list"
  faults :: "nat \<Rightarrow> error option"
  clock :: nat
  trace :: "event list"

subsection \<open>Computations that may throw\<close>

type_synonym 'a io = "world \<Rightarrow> (error + 'a) \<times> world"

definition io_return :: "'a \<Rightarrow> 'a io" where
  "io_return x w = (Inr x, w)"

definition throw :: "error \<Rightarrow> 'a io" where
  "throw e w = (Inl e, w)"

definition io_bind :: "'a io \<Rightarrow> ('a \<Rightarrow> 'b io) \<Rightarrow> 'b io" where
  "io_bind m f w = (case m w of (Inl e, w') \<Rightarrow> (Inl e, w') | (Inr x, w') \<Rightarrow> f x w')"

text \<open>\<^verbatim>\<open>try { m } catch (error) { h(error) }\<close>\<close>

definition try_catch :: "'a io \<Rightarrow> (error \<Rightarrow> 'a io) \<Rightarrow> 'a io" where
  "try_catch m h w = (case m w of (Inl e, w') \<Rightarrow> h e w' | (Inr x, w') \<Rightarrow> (Inr x, w'))"

text \<open>
  A call to a collaborator that can fail: it is recorded, it takes one tick of the clock,
  and it throws when the schedule says so; otherwise the collaborator acts.
\<close>

definition call :: "event \<Rightarrow> 'a io \<Rightarrow> 'a io" where
  "call ev act w =
     (let w1 = w\<lparr>clock := Suc (clock w), trace := trace w @ [ev]\<rparr>
      in case faults w (clock w) of Some e \<Rightarrow> (Inl e, w1) | None \<Rightarrow> act w1)"

subsection \<open>The collaborators\<close>

text \<open>\<^verbatim>\<open>fs.existsSync\<close>: never throws.\<close>

definition existsSync :: "string \<Rightarrow> bool io" where
  "existsSync p w = (Inr (fs_exists w p), w\<lparr>trace := trace w @ [ExistsSync p]\<rparr>)"

text \<open>\<^verbatim>\<open>embeddings.embedQuery(text)\<close>\<close>

definition embedQuery :: "string \<Rightarrow> (real list) io" where
  "embedQuery text = call (EmbedQuery text) (\<lambda>w. (Inr (embedding w text), w))"

text \<open>
  The index service, after the interface of the specification's section 6:
  listing gives the names; reading an absent collection and creating a present one are
  errors of the service; deleting removes the collection and its points.
\<close>

definition getCollections :: "(string list) io" where
  "getCollections = call GetCollections (\<lambda>w. (Inr (map fst (collections w)), w))"

definition getCollection :: "string \<Rightarrow> vectors_config io" where
  "getCollection name = call (GetCollection name)
     (\<lambda>w. case map_of (collections w) name of
            None \<Rightarrow> (Inl (JsError ''Not Found''), w)
          | Some cfg \<Rightarrow> (Inr cfg, w))"

definition deleteCollection :: "string \<Rightarrow> unit io" where
  "deleteCollection name = call (DeleteCollection name)
     (\<lambda>w. (Inr (), w\<lparr>collections := filter (\<lambda>c. fst c \<noteq> name) (collections w),
                      points := filter (\<lambda>p. fst p \<noteq> name) (points w)\<rparr>))"

definition createCollection :: "string \<Rightarrow> vectors_config \<Rightarrow> unit io" where
  "createCollection name cfg = call (CreateCollection name cfg)
     (\<lambda>w. if list_ex (\<lambda>c. fst c = name) (collections w)
           then (Inl (JsError ''Conflict''), w)
           else (Inr (), w\<lparr>collections := collections w @ [(name, cfg)]\<rparr>))"

text \<open>\<^verbatim>\<open>loader.load()\<close> of a \<^verbatim>\<open>PDFLoader\<close> on the file.\<close>

definition load :: "string \<Rightarrow> (document list) io" where
  "load filePath = call (Load filePath) (\<lambda>w. (Inr (pdf_pages w filePath), w))"

text \<open>
  \<^verbatim>\<open>textSplitter.splitDocuments(docs)\<close> of the library's \<^verbatim>\<open>CharacterTextSplitter\<close>,
  built with the given \<^verbatim>\<open>chunkSize\<close> and \<^verbatim>\<open>chunkOverlap\<close>. The splitter is not code of
  the worker: what it returns is a parameter.
\<close>

definition splitDocuments :: "nat \<Rightarrow> nat \<Rightarrow> document list \<Rightarrow> (document list) io" where
  "splitDocuments chunkSize chunkOverlap docs = call (SplitDocuments docs)
     (\<lambda>w. (Inr (splitter w chunkSize chunkOverlap docs), w))"

text \<open>
  \<^verbatim>\<open>vectorStore.addDocuments(batch)\<close> on the store of collection \<^verbatim>\<open>pdf-docs\<close>: one
  call that embeds the batch and upserts it. It stores the whole batch, in order, or
  throws and stores nothing; writing to a collection the index service does not have is
  an error of the service.
\<close>

definition addDocuments :: "string \<Rightarrow> document list \<Rightarrow> unit io" where
  "addDocuments name batch = call (AddDocuments batch)
     (\<lambda>w. case map_of (collections w) name of
            None \<Rightarrow> (Inl (JsError ''Not Found''), w)
          | Some cfg \<Rightarrow> (Inr (), w\<lparr>points := points w @ map (Pair name) batch\<rparr>))"

text \<open>\<^verbatim>\<open>await new Promise(resolve => setTimeout(resolve, ms))\<close>\<close>

definition delay :: "nat \<Rightarrow> unit io" where
  "delay ms w = (Inr (), w\<lparr>trace := trace w @ [Delay ms]\<rparr>)"

subsection \<open>\<^verbatim>\<open>getEmbeddingDimension\<close> (lines 11 to 29)\<close>

definition getEmbeddingDimension :: "nat io" where
  "getEmbeddingDimension =
     try_catch
       (io_bind (embedQuery ''test query'') (\<lambda>testResult.
        let dimension = length testResult in
        io_return dimension))
       (\<lambda>error. io_return 768)"

subsection \<open>The processor (lines 33 to 155)\<close>

text \<open>
  Line 39: \<^verbatim>\<open>typeof job.data === 'string' ? JSON.parse(job.data) : job.data\<close>
\<close>

definition parse_data :: "job_data \<Rightarrow> fileInfo io" where
  "parse_data d w =
     (case d of
        DataString s \<Rightarrow> (case json_parse w s of Inl e \<Rightarrow> throw e w | Inr fi \<Rightarrow> io_return fi w)
      | DataObject fi \<Rightarrow> io_return fi w)"

text \<open>
  Line 42: \<^verbatim>\<open>fileInfo.path || path.join(fileInfo.destination, fileInfo.filename)\<close>.
  The left operand of \<^verbatim>\<open>||\<close> is taken when it is truthy: a string that is present and
  not empty. Only otherwise is \<^verbatim>\<open>path.join\<close> called.
\<close>

definition joined_path :: "fileInfo \<Rightarrow> string io" where
  "joined_path fi w =
     (case path_join w (destination fi) (filename fi) of
        Inl e \<Rightarrow> throw e w
      | Inr p \<Rightarrow> io_return p w)"

definition resolve_path :: "fileInfo \<Rightarrow> string io" where
  "resolve_path fi w =
     (case path fi of
        Some p \<Rightarrow> if p \<noteq> [] then io_return p w else joined_path fi w
      | None \<Rightarrow> joined_path fi w)"

text \<open>Lines 39 to 42 together: the file path of the job.\<close>

definition file_path :: "job_data \<Rightarrow> string io" where
  "file_path d = io_bind (parse_data d) (\<lambda>fileInfo. resolve_path fileInfo)"

text \<open>Lines 47 to 49.\<close>

definition check_exists :: "string \<Rightarrow> unit io" where
  "check_exists filePath =
     io_bind (existsSync filePath) (\<lambda>found.
     if \<not> found then throw (JsError (''File not found at path: '' @ filePath))
     else io_return ())"

text \<open>Lines 68 to 109: the collection is checked, and created if needed.\<close>

definition pdf_docs :: string where
  "pdf_docs = ''pdf-docs''"

definition ensure_collection :: "nat \<Rightarrow> unit io" where
  "ensure_collection dimension =
     try_catch
       (io_bind getCollections (\<lambda>names.
        let collectionExists = list_ex (\<lambda>name. name = pdf_docs) names in
        if collectionExists then
          io_bind (getCollection pdf_docs) (\<lambda>collectionInfo.
          let currentDimension = vsize collectionInfo in
          if currentDimension \<noteq> Some dimension then
            io_bind (deleteCollection pdf_docs) (\<lambda>_.
            createCollection pdf_docs \<lparr>vsize = Some dimension, metric = Cosine\<rparr>)
          else io_return ())
        else createCollection pdf_docs \<lparr>vsize = Some dimension, metric = Cosine\<rparr>))
       (\<lambda>error. throw error)"

text \<open>Lines 136 to 147: the batches. \<^verbatim>\<open>xs.slice(i, j)\<close> for \<open>i \<le> j\<close>.\<close>

definition batchSize :: nat where
  "batchSize = 50"

definition slice :: "'a list \<Rightarrow> nat \<Rightarrow> nat \<Rightarrow> 'a list" where
  "slice xs i j = take (j - i) (drop i xs)"

function batch_loop :: "document list \<Rightarrow> nat \<Rightarrow> unit io" where
  "batch_loop splitDocs i w =
     (if i < length splitDocs then
        (let batch = slice splitDocs i (i + batchSize) in
         io_bind (addDocuments pdf_docs batch) (\<lambda>_.
         io_bind (if i + batchSize < length splitDocs then delay 1000 else io_return ()) (\<lambda>_.
         batch_loop splitDocs (i + batchSize))) w)
      else io_return () w)"
  by pat_completeness auto
termination
  by (relation "measure (\<lambda>(splitDocs, i, w). length splitDocs - i)")
     (auto simp: batchSize_def)

declare batch_loop.simps [simp del]

text \<open>
  The processor, in three parts. \<open>stage_collection\<close> is the run up to line 109: the file
  path is resolved and checked, the dimension probed, the collection checked.
  \<open>stage_chunks\<close> is the run up to line 126: the file is loaded and split.
  \<open>processor\<close> adds the batches and the returned value, inside the outer
  \<^verbatim>\<open>try\<close>, whose handler throws the error it caught.
\<close>

definition stage_collection :: "job_data \<Rightarrow> string io" where
  "stage_collection d =
     io_bind (file_path d) (\<lambda>filePath.
     io_bind (check_exists filePath) (\<lambda>_.
     io_bind getEmbeddingDimension (\<lambda>dimension.
     io_bind (ensure_collection dimension) (\<lambda>_.
     io_return filePath))))"

definition stage_chunks :: "job_data \<Rightarrow> (document list) io" where
  "stage_chunks d =
     io_bind (stage_collection d) (\<lambda>filePath.
     io_bind (load filePath) (\<lambda>docs.
     splitDocuments 1000 200 docs))"

definition processor :: "job_data \<Rightarrow> result io" where
  "processor d =
     try_catch
       (io_bind (stage_chunks d) (\<lambda>splitDocs.
        io_bind (batch_loop splitDocs 0) (\<lambda>_.
        io_return \<lparr>success = True, docCount = length splitDocs\<rparr>)))
       (\<lambda>error. throw error)"

subsection \<open>Reading a run\<close>

text \<open>The next \<open>n\<close> collaborator calls do not fail.\<close>

definition quiet :: "world \<Rightarrow> nat \<Rightarrow> bool" where
  "quiet w n \<longleftrightarrow> (\<forall>j<n. faults w (clock w + j) = None)"

text \<open>The batches of the \<open>addDocuments\<close> calls of a trace, in order.\<close>

fun upserts :: "event list \<Rightarrow> document list list" where
  "upserts [] = []"
| "upserts (AddDocuments batch # evs) = batch # upserts evs"
| "upserts (ev # evs) = upserts evs"

text \<open>The calls of a trace that name a file: the existence checks and the loads.\<close>

fun file_calls :: "event list \<Rightarrow> event list" where
  "file_calls [] = []"
| "file_calls (ExistsSync p # evs) = ExistsSync p # file_calls evs"
| "file_calls (Load p # evs) = Load p # file_calls evs"
| "file_calls (ev # evs) = file_calls evs"

text \<open>
  The consecutive groups of at most \<open>batchSize\<close> chunks, counted from 0, and their number
  for \<open>n\<close> chunks, \<open>n / batchSize\<close> rounded up.
\<close>

definition group :: "'a list \<Rightarrow> nat \<Rightarrow> 'a list" where
  "group xs j = slice xs (j * batchSize) (j * batchSize + batchSize)"

definition group_count :: "nat \<Rightarrow> nat" where
  "group_count n = (n + batchSize - 1) div batchSize"

text \<open>The points stored in a collection, in the order they were written.\<close>

definition stored :: "world \<Rightarrow> string \<Rightarrow> document list" where
  "stored w name = map snd (filter (\<lambda>p. fst p = name) (points w))"

subsection \<open>A world to run the worker in\<close>

text \<open>
  One file exists, \<^verbatim>\<open>/docs/a.pdf\<close>, of 120 short pages, and the splitter leaves each short
  page as one chunk. The provider answers with vectors of length 1024, and the index
  service holds \<^verbatim>\<open>pdf-docs\<close> with vector size 768 and one point. No call fails. Other
  worlds are updates of this one.
\<close>

definition page :: "nat \<Rightarrow> document" where
  "page n = \<lparr>pageContent = ''text of a page'', pageNumber = n\<rparr>"

definition a_pdf :: fileInfo where
  "a_pdf = \<lparr>path = Some ''/docs/a.pdf'', destination = None, filename = None\<rparr>"

text \<open>The JSON text of \<open>a_pdf\<close>; \<open>CHR 0x22\<close> is the double quote.\<close>

definition a_pdf_json :: string where
  "a_pdf_json = ''{'' @ [CHR 0x22] @ ''path'' @ [CHR 0x22] @ '':'' @ [CHR 0x22] @
     ''/docs/a.pdf'' @ [CHR 0x22] @ ''}''"

text \<open>A payload with no \<^verbatim>\<open>path\<close>, of a file that does not exist, and its JSON text.\<close>

definition b_pdf :: fileInfo where
  "b_pdf = \<lparr>path = None, destination = Some ''/uploads'', filename = Some ''b.pdf''\<rparr>"

definition b_pdf_json :: string where
  "b_pdf_json = ''{'' @ [CHR 0x22] @ ''destination'' @ [CHR 0x22] @ '':'' @ [CHR 0x22] @
     ''/uploads'' @ [CHR 0x22] @ '','' @ [CHR 0x22] @ ''filename'' @ [CHR 0x22] @ '':'' @
     [CHR 0x22] @ ''b.pdf'' @ [CHR 0x22] @ ''}''"

text \<open>A payload with no field at all, of JSON text \<^verbatim>\<open>{}\<close>.\<close>

definition empty_payload :: fileInfo where
  "empty_payload = \<lparr>path = None, destination = None, filename = None\<rparr>"

definition example_world :: world where
  "example_world = \<lparr>
     fs_exists = (\<lambda>p. p = ''/docs/a.pdf''),
     json_parse = (\<lambda>s. if s = a_pdf_json then Inr a_pdf
                        else if s = b_pdf_json then Inr b_pdf
                        else if s = ''{}'' then Inr empty_payload
                        else Inl (JsError ''Unexpected token'')),
     path_join = (\<lambda>a b. case a of None \<Rightarrow> Inl (JsError ''ERR_INVALID_ARG_TYPE'')
                        | Some x \<Rightarrow> (case b of None \<Rightarrow> Inl (JsError ''ERR_INVALID_ARG_TYPE'')
                                     | Some y \<Rightarrow> Inr (x @ ''/'' @ y))),
     embedding = (\<lambda>text. replicate 1024 0),
     pdf_pages = (\<lambda>p. map page [0..<120]),
     splitter = (\<lambda>chunkSize chunkOverlap docs. docs),
     collections = [(''pdf-docs'', \<lparr>vsize = Some 768, metric = Cosine\<rparr>)],
     points = [(''pdf-docs'', page 7)],
     faults = (\<lambda>n. None),
     clock = 0,
     trace = []\<rparr>"

text \<open>The index service has no collection.\<close>

definition no_collection_world :: world where
  "no_collection_world = example_world\<lparr>collections := [], points := []\<rparr>"

text \<open>The collection has the provider's vector size already.\<close>

definition matching_world :: world where
  "matching_world =
     example_world\<lparr>collections := [(''pdf-docs'', \<lparr>vsize = Some 1024, metric = Dot\<rparr>)]\<rparr>"

text \<open>The file loads as no page at all.\<close>

definition empty_pdf_world :: world where
  "empty_pdf_world = example_world\<lparr>pdf_pages := (\<lambda>p. [])\<rparr>"

text \<open>The call number \<open>n\<close> fails, and no other.\<close>

definition failing_at :: "nat \<Rightarrow> nat \<Rightarrow> error option" where
  "failing_at n = (\<lambda>k. if k = n then Some (JsError ''fetch failed'') else None)"

definition failing_world :: "nat \<Rightarrow> world" where
  "failing_world n = example_world\<lparr>faults := failing_at n\<rparr>"

section \<open>Lemmas\<close>

subsection \<open>Sequencing, calls and the fault schedule\<close>

lemma try_catch_rethrow: "try_catch m (\<lambda>error. throw error) = m"
  by (auto simp: try_catch_def throw_def fun_eq_iff split: prod.splits sum.splits)

lemma call_ok: "faults w (clock w) = None \<Longrightarrow>
  call ev act w = act (w\<lparr>clock := Suc (clock w), trace := trace w @ [ev]\<rparr>)"
  by (simp add: call_def)

lemma call_fault: "faults w (clock w) = Some e \<Longrightarrow>
  call ev act w = (Inl e, w\<lparr>clock := Suc (clock w), trace := trace w @ [ev]\<rparr>)"
  by (simp add: call_def)

lemma call_run:
  "call ev act w = (case faults w (clock w) of
       Some e \<Rightarrow> (Inl e, w\<lparr>clock := Suc (clock w), trace := trace w @ [ev]\<rparr>)
     | None \<Rightarrow> act (w\<lparr>clock := Suc (clock w), trace := trace w @ [ev]\<rparr>))"
  by (simp add: call_def Let_def)

lemma quiet_Suc: "quiet w (Suc n) \<longleftrightarrow> faults w (clock w) = None \<and> quiet (w\<lparr>clock := Suc (clock w)\<rparr>) n"
  unfolding quiet_def
proof (intro iffI conjI allI impI)
  assume a: "\<forall>j<Suc n. faults w (clock w + j) = None"
  from a[rule_format, of 0] show "faults w (clock w) = None" by simp
  fix j assume "j < n"
  with a[rule_format, of "Suc j"] show "faults (w\<lparr>clock := Suc (clock w)\<rparr>) (clock (w\<lparr>clock := Suc (clock w)\<rparr>) + j) = None" by simp
next
  fix j assume a: "faults w (clock w) = None \<and> (\<forall>j<n. faults (w\<lparr>clock := Suc (clock w)\<rparr>) (clock (w\<lparr>clock := Suc (clock w)\<rparr>) + j) = None)" and j: "j < Suc n"
  show "faults w (clock w + j) = None"
  proof (cases j)
    case 0 with a show ?thesis by simp
  next
    case (Suc k) with a j show ?thesis by auto
  qed
qed

lemma quiet_fields [simp]:
  "quiet (w\<lparr>trace := t\<rparr>) n = quiet w n"
  "quiet (w\<lparr>points := p\<rparr>) n = quiet w n"
  "quiet (w\<lparr>collections := c\<rparr>) n = quiet w n"
  by (simp_all add: quiet_def)

lemma quiet2: "quiet w 2 \<Longrightarrow> faults w (clock w) = None \<and> faults w (Suc (clock w)) = None"
proof -
  assume a: "quiet w 2"
  have "faults w (clock w + j) = None" if "j < 2" for j
    using a that by (simp add: quiet_def)
  from this[of 0] this[of 1] show ?thesis by simp
qed

lemma quiet4: "quiet w 4 \<Longrightarrow> faults w (clock w) = None \<and> faults w (Suc (clock w)) = None
   \<and> faults w (Suc (Suc (clock w))) = None \<and> faults w (Suc (Suc (Suc (clock w)))) = None"
proof -
  assume a: "quiet w 4"
  have "faults w (clock w + j) = None" if "j < 4" for j
    using a that by (simp add: quiet_def)
  from this[of 0] this[of 1] this[of 2] this[of 3] show ?thesis
    by (simp add: eval_nat_numeral)
qed

subsection \<open>The index service\<close>

lemma names_ex: "list_ex (\<lambda>name. name = n) (map fst cs) \<longleftrightarrow> map_of cs n \<noteq> None"
  by (induction cs) auto

lemma conf_ex: "list_ex (\<lambda>c. fst c = n) cs \<longleftrightarrow> map_of cs n \<noteq> None"
  by (induction cs) auto

lemma map_of_deleted: "map_of (filter (\<lambda>c. fst c \<noteq> n) cs) n = None"
  by (induction cs) auto

lemma upserts_append: "upserts (evs @ evs') = upserts evs @ upserts evs'"
  by (induction evs rule: upserts.induct) auto

lemma io_bind_InrE:
  assumes "io_bind m f w = (Inr y, w')"
  obtains x w1 where "m w = (Inr x, w1)" "f x w1 = (Inr y, w')"
  using assms by (auto simp: io_bind_def split: prod.splits sum.splits)

subsection \<open>The collection check\<close>

lemma ensure_collection_succeeds:
  assumes q: "quiet w 4" and run: "ensure_collection d w = (r, w')"
  shows "r = Inr ()"
proof -
  note f = quiet4[OF q]
  show ?thesis
  proof (cases "map_of (collections w) pdf_docs")
    case None
    with run f show ?thesis
      by (auto simp: ensure_collection_def try_catch_rethrow getCollections_def
            createCollection_def call_ok io_bind_def names_ex conf_ex)
  next
    case (Some cfg)
    show ?thesis
    proof (cases "vsize cfg = Some d")
      case True
      with Some run f show ?thesis
        by (auto simp: ensure_collection_def try_catch_rethrow getCollections_def
              getCollection_def call_ok io_bind_def io_return_def names_ex)
    next
      case False
      with Some run f show ?thesis
        by (auto simp: ensure_collection_def try_catch_rethrow getCollections_def
              getCollection_def deleteCollection_def createCollection_def call_ok
              io_bind_def names_ex conf_ex map_of_deleted)
    qed
  qed
qed

lemma ensure_collection_present:
  assumes "ensure_collection d w = (Inr u, w')"
  shows "\<exists>cfg. map_of (collections w') pdf_docs = Some cfg \<and> vsize cfg = Some d"
  using assms
  by (auto simp: ensure_collection_def try_catch_rethrow getCollections_def
        getCollection_def deleteCollection_def createCollection_def call_def Let_def
        io_bind_def io_return_def names_ex conf_ex map_of_deleted map_add_def
      split: option.splits if_splits)

lemma ensure_collection_noop:
  assumes "quiet w 2" "map_of (collections w) pdf_docs = Some cfg" "vsize cfg = Some d"
  shows "ensure_collection d w = (Inr (),
    w\<lparr>clock := Suc (Suc (clock w)), trace := trace w @ [GetCollections, GetCollection pdf_docs]\<rparr>)"
  using quiet2[OF assms(1)] assms(2,3)
  by (simp add: ensure_collection_def try_catch_rethrow getCollections_def
        getCollection_def call_ok io_bind_def io_return_def names_ex)

lemma ensure_collection_clock:
  assumes "ensure_collection d w = (r, w')"
  shows "faults w' = faults w \<and> clock w \<le> clock w' \<and> clock w' \<le> clock w + 4"
  using assms
  by (auto simp: ensure_collection_def try_catch_rethrow getCollections_def
        getCollection_def deleteCollection_def createCollection_def call_run Let_def
        io_bind_def io_return_def
      split: option.splits if_splits)

subsection \<open>What a successful stage leaves behind\<close>

lemma load_collections: "load p w = (r, w') \<Longrightarrow> collections w' = collections w"
  by (auto simp: load_def call_def Let_def split: option.splits)

lemma splitDocuments_collections:
  "splitDocuments n m ds w = (r, w') \<Longrightarrow> collections w' = collections w"
  by (auto simp: splitDocuments_def call_def Let_def split: option.splits)

lemma stage_collection_present:
  assumes "stage_collection d w = (Inr p, w')"
  shows "\<exists>cfg. map_of (collections w') pdf_docs = Some cfg"
proof -
  from assms obtain dim w1 w2 where "ensure_collection dim w1 = (Inr (), w2)"
    "io_return p w2 = (Inr p, w')"
    unfolding stage_collection_def
    by (elim io_bind_InrE) (auto simp: io_return_def)
  then show ?thesis using ensure_collection_present[of dim w1 "()" w2]
    by (auto simp: io_return_def)
qed

lemma stage_chunks_present:
  assumes "stage_chunks d w = (Inr chunks, w')"
  shows "\<exists>cfg. map_of (collections w') pdf_docs = Some cfg"
proof -
  from assms obtain p w1 docs w2 where s: "stage_collection d w = (Inr p, w1)"
    and l: "load p w1 = (Inr docs, w2)" and c: "splitDocuments 1000 200 docs w2 = (Inr chunks, w')"
    unfolding stage_chunks_def by (elim io_bind_InrE)
  from load_collections[OF l] splitDocuments_collections[OF c] stage_collection_present[OF s]
  show ?thesis by simp
qed

lemma file_path_pure: "file_path d w = (r, w') \<Longrightarrow> w' = w"
  by (auto simp: file_path_def parse_data_def resolve_path_def joined_path_def io_bind_def
        io_return_def throw_def split: job_data.splits sum.splits option.splits if_splits)

subsection \<open>The batch loop\<close>

lemma addDocuments_ok:
  "faults w (clock w) = None \<Longrightarrow> map_of (collections w) n = Some cfg \<Longrightarrow>
   addDocuments n b w = (Inr (), w\<lparr>clock := Suc (clock w), trace := trace w @ [AddDocuments b],
      points := points w @ map (Pair n) b\<rparr>)"
  by (simp add: addDocuments_def call_ok)

lemma addDocuments_fault:
  "faults w (clock w) = Some e \<Longrightarrow>
   addDocuments n b w = (Inl e, w\<lparr>clock := Suc (clock w), trace := trace w @ [AddDocuments b]\<rparr>)"
  by (simp add: addDocuments_def call_fault)

lemma group_count_less: "j < group_count n \<longleftrightarrow> j * batchSize < n"
proof -
  have "j < (n + 49) div 50 \<longleftrightarrow> Suc j \<le> (n + 49) div 50" by (rule less_eq_Suc_le)
  also have "\<dots> \<longleftrightarrow> Suc j * 50 \<le> n + 49" by (rule less_eq_div_iff_mult_less_eq) simp
  also have "\<dots> \<longleftrightarrow> j * 50 < n" by auto
  finally show ?thesis by (simp add: group_count_def batchSize_def add.commute)
qed

lemma group_count_covers: "n \<le> group_count n * batchSize"
proof -
  have "\<not> group_count n * batchSize < n"
    using group_count_less[of "group_count n" n] by simp
  then show ?thesis by simp
qed

lemma group_length: "length (group xs j) = min batchSize (length xs - j * batchSize)"
  by (simp add: group_def slice_def)

lemma slice_drop: "slice xs i (i + n) @ drop (i + n) xs = drop i xs"
  by (simp add: slice_def) (metis add.commute append_take_drop_id drop_drop)

lemma slice_take: "slice xs i (i + n) @ take m (drop (i + n) xs) = take (n + m) (drop i xs)"
proof -
  have "drop (i + n) xs = drop n (drop i xs)" by (simp add: add.commute)
  then show ?thesis by (simp add: slice_def take_add)
qed

lemma concat_groups: "concat (map (group xs) [0..<m]) = take (m * batchSize) xs"
proof (induction m)
  case 0
  show ?case by simp
next
  case (Suc m)
  have "take (m * batchSize) xs @ group xs m = take (m * batchSize + batchSize) xs"
    by (simp add: group_def slice_def take_add)
  with Suc show ?case by (simp add: add.commute)
qed

lemma stored_append:
  "points w' = points w @ map (Pair name) xs \<Longrightarrow> stored w' name = stored w name @ xs"
  by (simp add: stored_def filter_map o_def)

lemma batch_loop_quiet:
  "map_of (collections w) pdf_docs = Some cfg \<Longrightarrow> quiet w k \<Longrightarrow>
   k = group_count (length xs) - j \<Longrightarrow>
   \<exists>w'. batch_loop xs (j * batchSize) w = (Inr (), w') \<and>
        upserts (trace w') = upserts (trace w) @ map (group xs) [j..<group_count (length xs)] \<and>
        collections w' = collections w \<and>
        points w' = points w @ map (Pair pdf_docs) (drop (j * batchSize) xs)"
proof (induction k arbitrary: j w)
  case 0
  then have "\<not> j * batchSize < length xs" by (simp flip: group_count_less)
  with 0 show ?case by (simp add: batch_loop.simps io_return_def)
next
  case (Suc k)
  then have lt: "j < group_count (length xs)" by simp
  then have i: "j * batchSize < length xs" by (simp add: group_count_less)
  let ?b = "group xs j"
  let ?w1 = "w\<lparr>clock := Suc (clock w), trace := trace w @ [AddDocuments ?b],
      points := points w @ map (Pair pdf_docs) ?b\<rparr>"
  from Suc.prems have "quiet w (Suc k)" by simp
  then have f: "faults w (clock w) = None" and q: "quiet (w\<lparr>clock := Suc (clock w)\<rparr>) k"
    by (simp_all add: quiet_Suc)
  have a: "addDocuments pdf_docs ?b w = (Inr (), ?w1)"
    using addDocuments_ok[OF f Suc.prems(1)] .
  define w2 where "w2 = (if j * batchSize + batchSize < length xs
      then ?w1\<lparr>trace := trace ?w1 @ [Delay 1000]\<rparr> else ?w1)"
  have d: "(if j * batchSize + batchSize < length xs then delay 1000 else io_return ()) ?w1 = (Inr (), w2)"
    by (simp add: w2_def delay_def io_return_def)
  have w2: "collections w2 = collections w" "points w2 = points ?w1" "quiet w2 k"
      "upserts (trace w2) = upserts (trace w) @ [?b]"
    using q by (simp_all add: w2_def upserts_append)
  have k: "k = group_count (length xs) - Suc j" using Suc.prems by simp
  from Suc.IH[of w2 "Suc j", OF _ w2(3) k] Suc.prems(1) w2(1)
  obtain w' where r: "batch_loop xs (Suc j * batchSize) w2 = (Inr (), w')"
      "upserts (trace w') = upserts (trace w2) @ map (group xs) [Suc j..<group_count (length xs)]"
      "collections w' = collections w2"
      "points w' = points w2 @ map (Pair pdf_docs) (drop (Suc j * batchSize) xs)"
    by auto
  from r(1) have r1: "batch_loop xs (j * batchSize + batchSize) w2 = (Inr (), w')"
    by (simp add: add.commute)
  have "batch_loop xs (j * batchSize) w = (Inr (), w')"
    using i a d r1
    by (subst batch_loop.simps) (simp add: group_def io_bind_def)
  moreover have "upserts (trace w') = upserts (trace w) @ map (group xs) [j..<group_count (length xs)]"
    using r(2) w2(4) lt by (simp add: upt_conv_Cons)
  moreover have "points w' = points w @ map (Pair pdf_docs) (drop (j * batchSize) xs)"
    using r(4) w2(2) slice_drop[of xs "j * batchSize" batchSize]
    by (simp add: group_def add.commute flip: map_append)
  ultimately show ?case using r(3) w2(1) by simp
qed

lemma batch_loop_fault:
  "map_of (collections w) pdf_docs = Some cfg \<Longrightarrow> quiet w k \<Longrightarrow>
   faults w (clock w + k) = Some e \<Longrightarrow> (j + k) * batchSize < length xs \<Longrightarrow>
   \<exists>w'. batch_loop xs (j * batchSize) w = (Inl e, w') \<and>
        upserts (trace w') = upserts (trace w) @ map (group xs) [j..<Suc (j + k)] \<and>
        collections w' = collections w \<and>
        points w' = points w @ map (Pair pdf_docs) (take (k * batchSize) (drop (j * batchSize) xs))"
proof (induction k arbitrary: j w)
  case 0
  then have i: "j * batchSize < length xs" and f: "faults w (clock w) = Some e" by simp_all
  show ?case
    using i addDocuments_fault[OF f, of pdf_docs "group xs j"]
    by (subst batch_loop.simps) (simp add: group_def io_bind_def upserts_append)
next
  case (Suc k)
  have "j * batchSize \<le> (j + Suc k) * batchSize" by (rule mult_le_mono1) simp
  then have i: "j * batchSize < length xs" using Suc.prems(4) by (rule le_less_trans)
  let ?b = "group xs j"
  let ?w1 = "w\<lparr>clock := Suc (clock w), trace := trace w @ [AddDocuments ?b],
      points := points w @ map (Pair pdf_docs) ?b\<rparr>"
  from Suc.prems have f: "faults w (clock w) = None" and q: "quiet (w\<lparr>clock := Suc (clock w)\<rparr>) k"
    by (simp_all add: quiet_Suc)
  have a: "addDocuments pdf_docs ?b w = (Inr (), ?w1)"
    using addDocuments_ok[OF f Suc.prems(1)] .
  define w2 where "w2 = (if j * batchSize + batchSize < length xs
      then ?w1\<lparr>trace := trace ?w1 @ [Delay 1000]\<rparr> else ?w1)"
  have d: "(if j * batchSize + batchSize < length xs then delay 1000 else io_return ()) ?w1 = (Inr (), w2)"
    by (simp add: w2_def delay_def io_return_def)
  have w2: "collections w2 = collections w" "points w2 = points ?w1" "quiet w2 k"
      "upserts (trace w2) = upserts (trace w) @ [?b]"
      "faults w2 (clock w2 + k) = Some e"
    using q Suc.prems(3) by (simp_all add: w2_def upserts_append)
  have b: "(Suc j + k) * batchSize < length xs" using Suc.prems(4) by simp
  from Suc.IH[of w2 "Suc j", OF _ w2(3) w2(5) b] Suc.prems(1) w2(1)
  obtain w' where r: "batch_loop xs (Suc j * batchSize) w2 = (Inl e, w')"
      "upserts (trace w') = upserts (trace w2) @ map (group xs) [Suc j..<Suc (Suc j + k)]"
      "collections w' = collections w2"
      "points w' = points w2 @ map (Pair pdf_docs) (take (k * batchSize) (drop (Suc j * batchSize) xs))"
    by auto
  from r(1) have r1: "batch_loop xs (j * batchSize + batchSize) w2 = (Inl e, w')"
    by (simp add: add.commute)
  have "batch_loop xs (j * batchSize) w = (Inl e, w')"
    using i a d r1
    by (subst batch_loop.simps) (simp add: group_def io_bind_def)
  moreover have "upserts (trace w') = upserts (trace w) @ map (group xs) [j..<Suc (j + Suc k)]"
  proof -
    have u: "[j..<Suc (j + Suc k)] = j # [Suc j..<Suc (Suc j + k)]"
      by (simp add: upt_conv_Cons del: upt_Suc)
    show ?thesis unfolding u r(2) w2(4) by simp
  qed
  moreover have "points w' = points w @ map (Pair pdf_docs) (take (Suc k * batchSize) (drop (j * batchSize) xs))"
    using r(4) w2(2) slice_take[of xs "j * batchSize" batchSize "k * batchSize"]
    by (simp add: group_def add.commute flip: map_append)
  ultimately show ?case using r(3) w2(1) by simp
qed

lemma processor_batches:
  assumes "stage_chunks d w = (Inr chunks, w1)"
  shows "processor d w = io_bind (batch_loop chunks 0) (\<lambda>_.
           io_return \<lparr>success = True, docCount = length chunks\<rparr>) w1"
  using assms by (simp add: processor_def try_catch_rethrow io_bind_def)

lemma processor_load:
  assumes "stage_collection d w = (Inr p, w1)"
  shows "processor d w =
    io_bind (load p) (\<lambda>docs.
    io_bind (splitDocuments 1000 200 docs) (\<lambda>splitDocs.
    io_bind (batch_loop splitDocs 0) (\<lambda>_.
    io_return \<lparr>success = True, docCount = length splitDocs\<rparr>))) w1"
  using assms
  by (simp add: processor_def try_catch_rethrow stage_chunks_def io_bind_def
        split: prod.splits sum.splits)

subsection \<open>The files a run touches\<close>

lemma file_calls_append: "file_calls (evs @ evs') = file_calls evs @ file_calls evs'"
  by (induction evs rule: file_calls.induct) auto

lemma probe_appends:
  "getEmbeddingDimension w = (r, w') \<Longrightarrow> \<exists>t. trace w' = trace w @ t \<and> file_calls t = []"
  by (auto simp: getEmbeddingDimension_def embedQuery_def try_catch_def io_bind_def
        io_return_def call_run split: option.splits)

lemma ensure_collection_appends:
  "ensure_collection d w = (r, w') \<Longrightarrow> \<exists>t. trace w' = trace w @ t \<and> file_calls t = []"
  by (auto simp: ensure_collection_def try_catch_rethrow getCollections_def
        getCollection_def deleteCollection_def createCollection_def call_run Let_def
        io_bind_def io_return_def
      split: option.splits if_splits)

lemma splitDocuments_appends:
  "splitDocuments n m ds w = (r, w') \<Longrightarrow> \<exists>t. trace w' = trace w @ t \<and> file_calls t = []"
  by (auto simp: splitDocuments_def call_run split: option.splits)

lemma load_appends:
  "load p w = (r, w') \<Longrightarrow> trace w' = trace w @ [Load p]"
  by (auto simp: load_def call_run split: option.splits)

lemma addDocuments_appends:
  "addDocuments n b w = (r, w') \<Longrightarrow> trace w' = trace w @ [AddDocuments b]"
  by (auto simp: addDocuments_def call_run split: option.splits)

lemma batch_loop_appends:
  "batch_loop xs i w = (r, w') \<Longrightarrow> \<exists>t. trace w' = trace w @ t \<and> file_calls t = []"
proof (induction "length xs - i" arbitrary: i w rule: less_induct)
  case less
  show ?case
  proof (cases "i < length xs")
    case False
    with less.prems show ?thesis by (simp add: batch_loop.simps io_return_def)
  next
    case True
    obtain a w1 where a: "addDocuments pdf_docs (slice xs i (i + batchSize)) w = (a, w1)"
      by (cases "addDocuments pdf_docs (slice xs i (i + batchSize)) w")
    note t1 = addDocuments_appends[OF a]
    show ?thesis
    proof (cases a)
      case (Inl e)
      with less.prems True a t1 show ?thesis
        by (subst (asm) batch_loop.simps) (auto simp: io_bind_def)
    next
      case (Inr u)
      define w2 where "w2 = (if i + batchSize < length xs
        then w1\<lparr>trace := trace w1 @ [Delay 1000]\<rparr> else w1)"
      have d: "(if i + batchSize < length xs then delay 1000 else io_return ()) w1 = (Inr (), w2)"
        by (simp add: w2_def delay_def io_return_def)
      have t2: "\<exists>t. trace w2 = trace w @ t \<and> file_calls t = []"
        using t1 by (auto simp: w2_def)
      from less.prems True a Inr d have rec: "batch_loop xs (i + batchSize) w2 = (r, w')"
        by (subst (asm) batch_loop.simps) (simp add: io_bind_def)
      have "length xs - (i + batchSize) < length xs - i"
        using True by (simp add: batchSize_def)
      from less.hyps[OF this rec] t2 show ?thesis
        by (auto simp: file_calls_append)
    qed
  qed
qed

lemma processor_uses_file_path:
  assumes fp: "file_path d w = (Inr p, w0)" and run: "processor d w = (r, w')"
  shows "\<exists>t. trace w' = trace w @ ExistsSync p # t \<and>
    (file_calls t = [] \<or> file_calls t = [Load p])"
proof -
  from file_path_pure[OF fp] fp have fp': "file_path d w = (Inr p, w)" by simp
  let ?w0 = "w\<lparr>trace := trace w @ [ExistsSync p]\<rparr>"
  show ?thesis
  proof (cases "fs_exists w p")
    case False
    then have "check_exists p w = (Inl (JsError (''File not found at path: '' @ p)), ?w0)"
      by (simp add: check_exists_def existsSync_def io_bind_def throw_def)
    with fp' run have "w' = ?w0"
      by (simp add: processor_def try_catch_rethrow stage_chunks_def stage_collection_def
            io_bind_def)
    then show ?thesis by simp
  next
    case True
    then have ce: "check_exists p w = (Inr (), ?w0)"
      by (simp add: check_exists_def existsSync_def io_bind_def io_return_def)
    obtain a w1 where s1: "getEmbeddingDimension ?w0 = (a, w1)"
      by (cases "getEmbeddingDimension ?w0")
    from probe_appends[OF s1] obtain t1 where t1: "trace w1 = trace w @ ExistsSync p # t1"
      "file_calls t1 = []" by auto
    show ?thesis
    proof (cases a)
      case (Inl e)
      with fp' ce s1 run t1 show ?thesis
        by (auto simp: processor_def try_catch_rethrow stage_chunks_def stage_collection_def
              io_bind_def)
    next
      case (Inr dim)
      obtain b w2 where s2: "ensure_collection dim w1 = (b, w2)"
        by (cases "ensure_collection dim w1")
      from ensure_collection_appends[OF s2] t1 obtain t2
        where t2: "trace w2 = trace w @ ExistsSync p # t2" "file_calls t2 = []"
        by (auto simp: file_calls_append)
      show ?thesis
      proof (cases b)
        case (Inl e)
        with fp' ce s1 \<open>a = Inr dim\<close> s2 run t2 show ?thesis
          by (auto simp: processor_def try_catch_rethrow stage_chunks_def
                stage_collection_def io_bind_def)
      next
        case (Inr u)
        with fp' ce s1 \<open>a = Inr dim\<close> s2
        have sc: "stage_collection d w = (Inr p, w2)"
          by (simp add: stage_collection_def io_bind_def io_return_def)
        obtain c w3 where s3: "load p w2 = (c, w3)" by (cases "load p w2")
        from load_appends[OF s3] t2
        have t3: "trace w3 = trace w @ ExistsSync p # (t2 @ [Load p])"
          "file_calls (t2 @ [Load p]) = [Load p]"
          by (simp_all add: file_calls_append)
        show ?thesis
        proof (cases c)
          case (Inl e)
          with sc s3 run t3 show ?thesis
            by (auto simp: processor_def try_catch_rethrow stage_chunks_def io_bind_def)
        next
          case (Inr docs)
          obtain f w4 where s4: "splitDocuments 1000 200 docs w3 = (f, w4)"
            by (cases "splitDocuments 1000 200 docs w3")
          from splitDocuments_appends[OF s4] t3 obtain t4
            where t4: "trace w4 = trace w @ ExistsSync p # t4" "file_calls t4 = [Load p]"
            by (auto simp: file_calls_append)
          show ?thesis
          proof (cases f)
            case (Inl e)
            with sc s3 \<open>c = Inr docs\<close> s4 run t4 show ?thesis
              by (auto simp: processor_def try_catch_rethrow stage_chunks_def io_bind_def)
          next
            case (Inr chunks)
            with sc s3 \<open>c = Inr docs\<close> s4
            have st: "stage_chunks d w = (Inr chunks, w4)"
              by (simp add: stage_chunks_def io_bind_def)
            obtain g w5 where s5: "batch_loop chunks 0 w4 = (g, w5)"
              by (cases "batch_loop chunks 0 w4")
            from batch_loop_appends[OF s5] t4 obtain t5
              where t5: "trace w5 = trace w @ ExistsSync p # t5" "file_calls t5 = [Load p]"
              by (auto simp: file_calls_append)
            from processor_batches[OF st] s5 run have "w' = w5"
              by (auto simp: io_bind_def io_return_def split: sum.splits)
            with t5 show ?thesis by auto
          qed
        qed
      qed
    qed
  qed
qed

lemma processor_unresolved:
  assumes "file_path d w = (Inl e, w0)"
  shows "processor d w = (Inl e, w)"
proof -
  from file_path_pure[OF assms] assms have "file_path d w = (Inl e, w)" by simp
  then show ?thesis
    by (simp add: processor_def try_catch_rethrow stage_chunks_def stage_collection_def
          io_bind_def)
qed

subsection \<open>Unfolding the example worlds\<close>

lemmas world_defs = example_world_def a_pdf_def a_pdf_json_def b_pdf_def b_pdf_json_def
  pdf_docs_def

lemmas stage_defs = stage_chunks_def stage_collection_def file_path_def parse_data_def
  resolve_path_def joined_path_def check_exists_def existsSync_def getEmbeddingDimension_def embedQuery_def
  ensure_collection_def getCollections_def getCollection_def deleteCollection_def
  createCollection_def load_def splitDocuments_def call_def io_bind_def io_return_def
  throw_def try_catch_def Let_def

section \<open>Properties of the worker\<close>

text \<open>
  C1. The collection check, run with dimension \<open>d\<close> while the index service answers:
  when \<^verbatim>\<open>pdf-docs\<close> is absent it is created with vector size \<open>d\<close> and cosine distance;
  when it is present with vector size \<open>d\<close>, the service is only read, nothing is created
  or deleted; when it is present with another vector size it is deleted, then created
  with vector size \<open>d\<close> and cosine distance, and its points are gone. In every case the
  collection has vector size \<open>d\<close> afterwards.
\<close>

theorem ensure_collection_reconciles:
  assumes q: "quiet w 4" and run: "ensure_collection d w = (r, w')"
  shows "r = Inr () \<and>
    (map_of (collections w) pdf_docs = None \<longrightarrow>
       trace w' = trace w @ [GetCollections,
         CreateCollection pdf_docs \<lparr>vsize = Some d, metric = Cosine\<rparr>] \<and>
       map_of (collections w') pdf_docs = Some \<lparr>vsize = Some d, metric = Cosine\<rparr>) \<and>
    (\<forall>cfg. map_of (collections w) pdf_docs = Some cfg \<and> vsize cfg = Some d \<longrightarrow>
       trace w' = trace w @ [GetCollections, GetCollection pdf_docs] \<and>
       collections w' = collections w \<and> points w' = points w) \<and>
    (\<forall>cfg. map_of (collections w) pdf_docs = Some cfg \<and> vsize cfg \<noteq> Some d \<longrightarrow>
       trace w' = trace w @ [GetCollections, GetCollection pdf_docs,
         DeleteCollection pdf_docs,
         CreateCollection pdf_docs \<lparr>vsize = Some d, metric = Cosine\<rparr>] \<and>
       map_of (collections w') pdf_docs = Some \<lparr>vsize = Some d, metric = Cosine\<rparr> \<and>
       stored w' pdf_docs = []) \<and>
    (\<exists>cfg'. map_of (collections w') pdf_docs = Some cfg' \<and> vsize cfg' = Some d)"
proof -
  note f = quiet4[OF q]
  show ?thesis
  proof (cases "map_of (collections w) pdf_docs")
    case None
    with run f show ?thesis
      by (auto simp: ensure_collection_def try_catch_rethrow getCollections_def
            createCollection_def call_ok io_bind_def names_ex conf_ex map_add_def)
  next
    case (Some cfg)
    show ?thesis
    proof (cases "vsize cfg = Some d")
      case True
      with Some run f show ?thesis
        by (auto simp: ensure_collection_def try_catch_rethrow getCollections_def
              getCollection_def call_ok io_bind_def io_return_def names_ex)
    next
      case False
      with Some run f show ?thesis
        by (auto simp: ensure_collection_def try_catch_rethrow getCollections_def
              getCollection_def deleteCollection_def createCollection_def call_ok
              io_bind_def names_ex conf_ex map_of_deleted map_add_def stored_def
              filter_empty_conv)
    qed
  qed
qed

theorem ensure_collection_reconciles_witness:
  "trace (snd (ensure_collection 1024 no_collection_world)) =
     [GetCollections, CreateCollection ''pdf-docs'' \<lparr>vsize = Some 1024, metric = Cosine\<rparr>] \<and>
   trace (snd (ensure_collection 1024 matching_world)) =
     [GetCollections, GetCollection ''pdf-docs''] \<and>
   trace (snd (ensure_collection 1024 example_world)) =
     [GetCollections, GetCollection ''pdf-docs'', DeleteCollection ''pdf-docs'',
      CreateCollection ''pdf-docs'' \<lparr>vsize = Some 1024, metric = Cosine\<rparr>] \<and>
   map_of (collections (snd (ensure_collection 1024 example_world))) ''pdf-docs'' =
     Some \<lparr>vsize = Some 1024, metric = Cosine\<rparr> \<and>
   fst (ensure_collection 1024 example_world) = Inr ()"
proof -
  have q: "quiet no_collection_world 4" "quiet matching_world 4" "quiet example_world 4"
    by (simp_all add: quiet_def world_defs no_collection_world_def matching_world_def)
  have c: "map_of (collections no_collection_world) pdf_docs = None"
    "map_of (collections matching_world) pdf_docs = Some \<lparr>vsize = Some 1024, metric = Dot\<rparr>"
    "map_of (collections example_world) pdf_docs = Some \<lparr>vsize = Some 768, metric = Cosine\<rparr>"
    "trace no_collection_world = []" "trace matching_world = []" "trace example_world = []"
    by (simp_all add: world_defs no_collection_world_def matching_world_def)
  from ensure_collection_reconciles[OF q(1) surjective_pairing, of 1024]
    ensure_collection_reconciles[OF q(2) surjective_pairing, of 1024]
    ensure_collection_reconciles[OF q(3) surjective_pairing, of 1024] c
  show ?thesis by (simp add: pdf_docs_def)
qed

text \<open>
  C2. The collection check is idempotent: run twice in a row with the same dimension
  \<open>d\<close>, the second run only lists the collections and reads \<^verbatim>\<open>pdf-docs\<close>; it creates
  and deletes nothing, and the collection has vector size \<open>d\<close>.
\<close>

theorem ensure_collection_idempotent:
  assumes q: "quiet w 6"
    and first: "ensure_collection d w = (r1, w1)"
    and second: "ensure_collection d w1 = (r2, w2)"
  shows "r1 = Inr () \<and> r2 = Inr () \<and>
    trace w2 = trace w1 @ [GetCollections, GetCollection pdf_docs] \<and>
    collections w2 = collections w1 \<and> points w2 = points w1 \<and>
    (\<exists>cfg. map_of (collections w2) pdf_docs = Some cfg \<and> vsize cfg = Some d)"
proof -
  have q4: "quiet w 4" using q by (simp add: quiet_def)
  from ensure_collection_succeeds[OF q4 first] have r1: "r1 = Inr ()" .
  from ensure_collection_present[of d w "()" w1] first r1
  obtain cfg where c: "map_of (collections w1) pdf_docs = Some cfg" "vsize cfg = Some d"
    by auto
  from ensure_collection_clock[OF first]
  have k: "faults w1 = faults w" "clock w \<le> clock w1" "clock w1 \<le> clock w + 4" by simp_all
  have q2: "quiet w1 2"
    unfolding quiet_def
  proof (intro allI impI)
    fix j :: nat assume j: "j < 2"
    define i where "i = clock w1 - clock w + j"
    from k(2) have e: "clock w1 + j = clock w + i" by (simp add: i_def)
    from k(3) j have "i < 6" by (simp add: i_def)
    with q have "faults w (clock w + i) = None" by (simp add: quiet_def)
    then show "faults w1 (clock w1 + j) = None" by (simp add: e k(1))
  qed
  from ensure_collection_noop[OF q2 c] second r1 c show ?thesis by auto
qed

theorem ensure_collection_idempotent_witness:
  "fst (ensure_collection 1024 (snd (ensure_collection 1024 example_world))) = Inr () \<and>
   trace (snd (ensure_collection 1024 (snd (ensure_collection 1024 example_world)))) =
     trace (snd (ensure_collection 1024 example_world)) @
       [GetCollections, GetCollection ''pdf-docs''] \<and>
   collections (snd (ensure_collection 1024 (snd (ensure_collection 1024 example_world)))) =
     [(''pdf-docs'', \<lparr>vsize = Some 1024, metric = Cosine\<rparr>)]"
proof -
  have q: "quiet example_world 6" by (simp add: quiet_def world_defs)
  have c: "collections (snd (ensure_collection 1024 example_world)) =
      [(''pdf-docs'', \<lparr>vsize = Some 1024, metric = Cosine\<rparr>)]"
    by (simp add: stage_defs world_defs)
  from ensure_collection_idempotent[OF q surjective_pairing surjective_pairing, of 1024] c
  show ?thesis by (simp add: pdf_docs_def)
qed

text \<open>
  C3. The probe returns the length of the vector the provider returns; when the provider
  call throws, whatever the error, it returns 768. It never throws itself.
\<close>

theorem probe_dimension_or_default:
  "(\<forall>v w'. embedQuery ''test query'' w = (Inr v, w') \<longrightarrow>
       getEmbeddingDimension w = (Inr (length v), w')) \<and>
   (\<forall>e w'. embedQuery ''test query'' w = (Inl e, w') \<longrightarrow>
       getEmbeddingDimension w = (Inr 768, w')) \<and>
   (\<exists>n. fst (getEmbeddingDimension w) = Inr n)"
  by (cases "embedQuery ''test query'' w")
     (auto simp: getEmbeddingDimension_def try_catch_def io_bind_def io_return_def
           split: sum.splits)

theorem probe_dimension_or_default_witness:
  "fst (getEmbeddingDimension example_world) = Inr 1024 \<and>
   fst (getEmbeddingDimension (failing_world 0)) = Inr 768"
proof -
  have ok: "embedQuery ''test query'' example_world =
      (Inr (replicate 1024 0), snd (embedQuery ''test query'' example_world))"
    by (simp add: embedQuery_def call_def world_defs failing_world_def failing_at_def)
  have bad: "embedQuery ''test query'' (failing_world 0) =
      (Inl (JsError ''fetch failed''), snd (embedQuery ''test query'' (failing_world 0)))"
    by (simp add: embedQuery_def call_def world_defs failing_world_def failing_at_def)
  from probe_dimension_or_default[of example_world, THEN conjunct1, rule_format, OF ok]
    probe_dimension_or_default[of "failing_world 0", THEN conjunct2, THEN conjunct1,
      rule_format, OF bad]
  show ?thesis by simp
qed

text \<open>
  C4. When the chunks are there and the vector store answers, the processor writes them
  in \<open>n / 50\<close> rounded up consecutive groups: group \<open>j\<close> is the 50 chunks from index
  \<open>50 * j\<close> on (fewer at the end), no group is empty or longer than 50, the groups in
  order make up the chunk sequence, there is one \<^verbatim>\<open>addDocuments\<close> call per group, and the
  returned \<^verbatim>\<open>docCount\<close> is the number of chunks. For 120 chunks the groups have 50, 50 and
  20 chunks and the count is 120, as the run on the example world shows.
\<close>

theorem batches_partition_chunks:
  assumes stage: "stage_chunks d w = (Inr chunks, w1)"
    and q: "quiet w1 (group_count (length chunks))"
    and run: "processor d w = (r, w')"
  shows "r = Inr \<lparr>success = True, docCount = length chunks\<rparr> \<and>
    upserts (trace w') =
      upserts (trace w1) @ map (group chunks) [0..<group_count (length chunks)] \<and>
    group_count (length chunks) = (length chunks + 49) div 50 \<and>
    concat (map (group chunks) [0..<group_count (length chunks)]) = chunks \<and>
    (\<forall>j<group_count (length chunks).
       group chunks j = take 50 (drop (50 * j) chunks) \<and>
       group chunks j \<noteq> [] \<and> length (group chunks j) \<le> 50) \<and>
    stored w' pdf_docs = stored w1 pdf_docs @ chunks"
proof -
  from stage_chunks_present[OF stage] obtain cfg
    where c: "map_of (collections w1) pdf_docs = Some cfg" by blast
  from batch_loop_quiet[OF c, of "group_count (length chunks)" chunks 0] q
  obtain w2 where l: "batch_loop chunks 0 w1 = (Inr (), w2)"
    and u: "upserts (trace w2) =
      upserts (trace w1) @ map (group chunks) [0..<group_count (length chunks)]"
    and p: "points w2 = points w1 @ map (Pair pdf_docs) chunks"
    by auto
  from processor_batches[OF stage] l run
  have r: "r = Inr \<lparr>success = True, docCount = length chunks\<rparr>" and w': "w' = w2"
    by (simp_all add: io_bind_def io_return_def)
  have n: "group_count (length chunks) = (length chunks + 49) div 50"
    by (simp add: group_count_def batchSize_def)
  have cc: "concat (map (group chunks) [0..<group_count (length chunks)]) = chunks"
    using group_count_covers[of "length chunks"] by (simp add: concat_groups)
  have g: "group chunks j = take 50 (drop (50 * j) chunks) \<and>
       group chunks j \<noteq> [] \<and> length (group chunks j) \<le> 50"
    if "j < group_count (length chunks)" for j
  proof -
    from that have "j * batchSize < length chunks" by (simp add: group_count_less)
    then show ?thesis
      by (simp add: group_def slice_def batchSize_def mult.commute)
  qed
  from r u n cc g stored_append[OF p] show ?thesis unfolding w' by blast
qed

theorem batches_partition_chunks_witness:
  "fst (processor (DataObject a_pdf) example_world) = Inr \<lparr>success = True, docCount = 120\<rparr> \<and>
   map length (upserts (trace (snd (processor (DataObject a_pdf) example_world)))) = [50, 50, 20]"
proof -
  have s: "stage_chunks (DataObject a_pdf) example_world =
      (Inr (map page [0..<120]), snd (stage_chunks (DataObject a_pdf) example_world))"
    by (simp add: stage_defs world_defs)
  have q: "quiet (snd (stage_chunks (DataObject a_pdf) example_world))
      (group_count (length (map page [0..<120])))"
    by (simp add: quiet_def stage_defs world_defs)
  have u: "upserts (trace (snd (stage_chunks (DataObject a_pdf) example_world))) = []"
    by (simp add: stage_defs world_defs)
  have g: "map length (map (group (map page [0..<120])) [0..<group_count (length (map page [0..<120]))])
      = [50, 50, 20]"
    by (simp add: group_count_def batchSize_def group_length upt_conv_Cons)
  from batches_partition_chunks[OF s q surjective_pairing] u g show ?thesis by simp
qed

text \<open>
  C5. A job whose file path does not exist fails with the error
  \<^verbatim>\<open>File not found at path: ...\<close>, and the only call of the run is the existence check:
  the provider is not probed and the index service is not called.
\<close>

theorem missing_file_fails_before_probe:
  assumes fp: "file_path d w = (Inr p, w0)"
    and missing: "\<not> fs_exists w p"
    and run: "processor d w = (r, w')"
  shows "r = Inl (JsError (''File not found at path: '' @ p)) \<and>
    trace w' = trace w @ [ExistsSync p] \<and> clock w' = clock w \<and>
    collections w' = collections w \<and> points w' = points w"
proof -
  from file_path_pure[OF fp] fp have fp': "file_path d w = (Inr p, w)" by simp
  have "check_exists p w = (Inl (JsError (''File not found at path: '' @ p)),
      w\<lparr>trace := trace w @ [ExistsSync p]\<rparr>)"
    using missing by (simp add: check_exists_def existsSync_def io_bind_def throw_def)
  then have "stage_collection d w = (Inl (JsError (''File not found at path: '' @ p)),
      w\<lparr>trace := trace w @ [ExistsSync p]\<rparr>)"
    using fp' by (simp add: stage_collection_def io_bind_def)
  then have "processor d w = (Inl (JsError (''File not found at path: '' @ p)),
      w\<lparr>trace := trace w @ [ExistsSync p]\<rparr>)"
    by (simp add: processor_def try_catch_rethrow stage_chunks_def io_bind_def)
  with run show ?thesis by auto
qed

theorem missing_file_fails_before_probe_witness:
  "fst (processor (DataObject b_pdf) example_world) =
     Inl (JsError ''File not found at path: /uploads/b.pdf'') \<and>
   trace (snd (processor (DataObject b_pdf) example_world)) = [ExistsSync ''/uploads/b.pdf'']"
proof -
  have p: "file_path (DataObject b_pdf) example_world = (Inr ''/uploads/b.pdf'', example_world)"
    by (simp add: stage_defs world_defs)
  have m: "\<not> fs_exists example_world ''/uploads/b.pdf''" "trace example_world = []"
    by (simp_all add: world_defs)
  from missing_file_fails_before_probe[OF p m(1) surjective_pairing] m(2)
  show ?thesis by simp
qed

text \<open>
  C8, amended. When the loader call throws, the job fails with the error thrown, as it is.
  When the file loads as no page and the splitter returns no chunk for it, the job is not
  failed: it completes with \<^verbatim>\<open>docCount\<close> 0 and writes nothing.
\<close>

theorem load_error_fails_job:
  assumes stage: "stage_collection d w = (Inr p, w1)"
    and run: "processor d w = (r, w')"
  shows "(\<forall>e w2. load p w1 = (Inl e, w2) \<longrightarrow> r = Inl e \<and> w' = w2) \<and>
    (quiet w1 2 \<and> pdf_pages w1 p = [] \<and> splitter w1 1000 200 [] = [] \<longrightarrow>
       r = Inr \<lparr>success = True, docCount = 0\<rparr> \<and> upserts (trace w') = upserts (trace w1))"
proof (intro conjI allI impI)
  fix e w2 assume "load p w1 = (Inl e, w2)"
  with processor_load[OF stage] run show "r = Inl e" "w' = w2"
    by (simp_all add: io_bind_def)
next
  assume a: "quiet w1 2 \<and> pdf_pages w1 p = [] \<and> splitter w1 1000 200 [] = []"
  with quiet2[of w1] have f: "faults w1 (clock w1) = None" "faults w1 (Suc (clock w1)) = None"
    by simp_all
  from f a processor_load[OF stage] run
  show "r = Inr \<lparr>success = True, docCount = 0\<rparr>" "upserts (trace w') = upserts (trace w1)"
    by (auto simp: load_def splitDocuments_def call_ok io_bind_def io_return_def
          batch_loop.simps upserts_append)
qed

theorem load_error_fails_job_witness:
  "fst (processor (DataObject a_pdf) (failing_world 5)) = Inl (JsError ''fetch failed'') \<and>
   fst (processor (DataObject a_pdf) empty_pdf_world) = Inr \<lparr>success = True, docCount = 0\<rparr> \<and>
   upserts (trace (snd (processor (DataObject a_pdf) empty_pdf_world))) = []"
proof -
  let ?f = "snd (stage_collection (DataObject a_pdf) (failing_world 5))"
  let ?e = "snd (stage_collection (DataObject a_pdf) empty_pdf_world)"
  have s: "stage_collection (DataObject a_pdf) (failing_world 5) = (Inr ''/docs/a.pdf'', ?f)"
    "stage_collection (DataObject a_pdf) empty_pdf_world = (Inr ''/docs/a.pdf'', ?e)"
    by (simp_all add: stage_defs world_defs failing_world_def failing_at_def empty_pdf_world_def)
  have l: "load ''/docs/a.pdf'' ?f = (Inl (JsError ''fetch failed''), snd (load ''/docs/a.pdf'' ?f))"
    by (simp add: stage_defs world_defs failing_world_def failing_at_def empty_pdf_world_def)
  have e: "quiet ?e 2 \<and> pdf_pages ?e ''/docs/a.pdf'' = [] \<and> splitter ?e 1000 200 [] = []"
    "upserts (trace ?e) = []"
    by (simp_all add: quiet_def stage_defs world_defs failing_world_def failing_at_def empty_pdf_world_def)
  from load_error_fails_job[OF s(1) surjective_pairing, THEN conjunct1, rule_format, OF l]
    load_error_fails_job[OF s(2) surjective_pairing, THEN conjunct2, rule_format, OF e(1)] e(2)
  show ?thesis by simp
qed

text \<open>
  C8, as stated, fails: nothing in the worker looks at what the loader returns. A file that
  loads as no page at all is split into no chunk, no batch is written, and the job
  completes with \<^verbatim>\<open>{ success: true, docCount: 0 }\<close>.
\<close>

theorem empty_document_completes:
  "pdf_pages empty_pdf_world ''/docs/a.pdf'' = [] \<and>
   fst (processor (DataObject a_pdf) empty_pdf_world) = Inr \<lparr>success = True, docCount = 0\<rparr>"
  by (simp add: processor_def stage_defs world_defs empty_pdf_world_def batch_loop.simps)

text \<open>
  C9. When the \<^verbatim>\<open>addDocuments\<close> call of a group fails, the groups before it having been
  written, the job fails with that very error and returns no result; the chunks of the
  groups before it stay stored; and no call is made for a later group: the calls of the
  run are those of the groups up to the failing one.
\<close>

theorem failed_group_fails_job:
  assumes stage: "stage_chunks d w = (Inr chunks, w1)"
    and k: "k * batchSize < length chunks"
    and q: "quiet w1 k"
    and f: "faults w1 (clock w1 + k) = Some e"
    and run: "processor d w = (r, w')"
  shows "r = Inl e \<and>
    upserts (trace w') = upserts (trace w1) @ map (group chunks) [0..<Suc k] \<and>
    stored w' pdf_docs = stored w1 pdf_docs @ take (k * batchSize) chunks"
proof -
  from stage_chunks_present[OF stage] obtain cfg
    where c: "map_of (collections w1) pdf_docs = Some cfg" by blast
  from batch_loop_fault[OF c q f, of 0 chunks] k
  obtain w2 where l: "batch_loop chunks 0 w1 = (Inl e, w2)"
    and u: "upserts (trace w2) = upserts (trace w1) @ map (group chunks) [0..<Suc k]"
    and p: "points w2 = points w1 @ map (Pair pdf_docs) (take (k * batchSize) chunks)"
    by auto
  from processor_batches[OF stage] l run
  have r: "r = Inl e" and w': "w' = w2"
    by (simp_all add: io_bind_def)
  from r u stored_append[OF p] show ?thesis unfolding w' by blast
qed

theorem failed_group_fails_job_witness:
  "fst (processor (DataObject a_pdf) (failing_world 8)) = Inl (JsError ''fetch failed'') \<and>
   map length (upserts (trace (snd (processor (DataObject a_pdf) (failing_world 8))))) = [50, 50] \<and>
   stored (snd (processor (DataObject a_pdf) (failing_world 8))) ''pdf-docs'' =
     take 50 (map page [0..<120])"
proof -
  let ?w1 = "snd (stage_chunks (DataObject a_pdf) (failing_world 8))"
  have s: "stage_chunks (DataObject a_pdf) (failing_world 8) = (Inr (map page [0..<120]), ?w1)"
    by (simp add: stage_defs world_defs failing_world_def failing_at_def)
  have k: "1 * batchSize < length (map page [0..<120])" by (simp add: batchSize_def)
  have q: "quiet ?w1 1" by (simp add: quiet_def stage_defs world_defs failing_world_def failing_at_def)
  have f: "faults ?w1 (clock ?w1 + 1) = Some (JsError ''fetch failed'')"
    by (simp add: stage_defs world_defs failing_world_def failing_at_def)
  have u: "upserts (trace ?w1) = []" "stored ?w1 pdf_docs = []"
    by (simp_all add: stage_defs world_defs failing_world_def failing_at_def stored_def)
  have g: "map length (map (group (map page [0..<120])) [0..<Suc 1]) = [50, 50]"
    by (simp add: batchSize_def group_length)
  from failed_group_fails_job[OF s k q f surjective_pairing] u g
  show ?thesis by (simp add: pdf_docs_def batchSize_def)
qed

text \<open>
  C10. A payload that arrives as a string is parsed, and the run is then the run on the
  parsed object, with the same outcome. The file path is the \<^verbatim>\<open>path\<close> field when it is
  present and not empty, else \<^verbatim>\<open>path.join\<close> of \<^verbatim>\<open>destination\<close> and \<^verbatim>\<open>filename\<close>,
  and it is the path the run works on: the first call of the run is the existence check
  of that path, and the only other call that names a file is the load of that same
  path. When \<^verbatim>\<open>path.join\<close> throws, the job fails with that error before any call.
\<close>

theorem string_payload_as_object:
  assumes parsed: "json_parse w s = Inr fi"
    and run: "processor (DataString s) w = (r, w')"
  shows "processor (DataString s) w = processor (DataObject fi) w \<and>
    processor (DataObject fi) w = (r, w') \<and>
    file_path (DataString s) w = file_path (DataObject fi) w \<and>
    (\<forall>p. path fi = Some p \<and> p \<noteq> [] \<longrightarrow>
       file_path (DataObject fi) w = (Inr p, w) \<and>
       (\<exists>t. trace w' = trace w @ ExistsSync p # t \<and>
            (file_calls t = [] \<or> file_calls t = [Load p]))) \<and>
    (path fi = None \<or> path fi = Some [] \<longrightarrow>
       file_path (DataObject fi) w = (path_join w (destination fi) (filename fi), w) \<and>
       (\<forall>p. path_join w (destination fi) (filename fi) = Inr p \<longrightarrow>
          (\<exists>t. trace w' = trace w @ ExistsSync p # t \<and>
               (file_calls t = [] \<or> file_calls t = [Load p]))) \<and>
       (\<forall>e. path_join w (destination fi) (filename fi) = Inl e \<longrightarrow>
          r = Inl e \<and> w' = w))"
proof -
  have "parse_data (DataString s) w = parse_data (DataObject fi) w"
    using parsed by (simp add: parse_data_def)
  then have f: "file_path (DataString s) w = file_path (DataObject fi) w"
    by (simp add: file_path_def io_bind_def)
  then have "stage_collection (DataString s) w = stage_collection (DataObject fi) w"
    by (simp add: stage_collection_def io_bind_def)
  then have "stage_chunks (DataString s) w = stage_chunks (DataObject fi) w"
    by (simp add: stage_chunks_def io_bind_def)
  then have same: "processor (DataString s) w = processor (DataObject fi) w"
    by (simp add: processor_def try_catch_def io_bind_def)
  have by_path: "file_path (DataObject fi) w = (Inr p, w)"
    if "path fi = Some p \<and> p \<noteq> []" for p
    using that
    by (simp add: file_path_def parse_data_def resolve_path_def io_bind_def io_return_def)
  have by_join: "file_path (DataObject fi) w =
      (path_join w (destination fi) (filename fi), w)"
    if "path fi = None \<or> path fi = Some []"
    using that
    by (auto simp: file_path_def parse_data_def resolve_path_def joined_path_def io_bind_def
          io_return_def throw_def split: sum.splits)
  have used: "\<exists>t. trace w' = trace w @ ExistsSync p # t \<and>
      (file_calls t = [] \<or> file_calls t = [Load p])"
    if "file_path (DataObject fi) w = (Inr p, w)" for p
    using processor_uses_file_path[of "DataString s" w p w r w'] that f run by simp
  have failed: "r = Inl e \<and> w' = w"
    if "file_path (DataObject fi) w = (Inl e, w)" for e
    using processor_unresolved[of "DataString s" w e w] that f run by simp
  show ?thesis
  proof (intro conjI allI impI)
    show "processor (DataString s) w = processor (DataObject fi) w" by (rule same)
    show "processor (DataObject fi) w = (r, w')" using same run by simp
    show "file_path (DataString s) w = file_path (DataObject fi) w" by (rule f)
  next
    fix p assume a: "path fi = Some p \<and> p \<noteq> []"
    show "file_path (DataObject fi) w = (Inr p, w)" by (rule by_path[OF a])
    show "\<exists>t. trace w' = trace w @ ExistsSync p # t \<and>
        (file_calls t = [] \<or> file_calls t = [Load p])"
      by (rule used[OF by_path[OF a]])
  next
    assume a: "path fi = None \<or> path fi = Some []"
    show "file_path (DataObject fi) w = (path_join w (destination fi) (filename fi), w)"
      by (rule by_join[OF a])
  next
    fix p assume a: "path fi = None \<or> path fi = Some []"
      and j: "path_join w (destination fi) (filename fi) = Inr p"
    show "\<exists>t. trace w' = trace w @ ExistsSync p # t \<and>
        (file_calls t = [] \<or> file_calls t = [Load p])"
      using used[of p] by_join[OF a] j by simp
  next
    fix e assume a: "path fi = None \<or> path fi = Some []"
      and j: "path_join w (destination fi) (filename fi) = Inl e"
    show "r = Inl e" "w' = w" using failed[of e] by_join[OF a] j by simp_all
  qed
qed

theorem string_payload_as_object_witness:
  "processor (DataString a_pdf_json) example_world =
     processor (DataObject a_pdf) example_world \<and>
   hd (trace (snd (processor (DataString a_pdf_json) example_world))) =
     ExistsSync ''/docs/a.pdf'' \<and>
   processor (DataString b_pdf_json) example_world =
     processor (DataObject b_pdf) example_world \<and>
   hd (trace (snd (processor (DataString b_pdf_json) example_world))) =
     ExistsSync ''/uploads/b.pdf'' \<and>
   processor (DataString ''{}'') example_world =
     (Inl (JsError ''ERR_INVALID_ARG_TYPE''), example_world)"
proof -
  have j: "json_parse example_world a_pdf_json = Inr a_pdf"
    "json_parse example_world b_pdf_json = Inr b_pdf"
    "json_parse example_world ''{}'' = Inr empty_payload"
    by (simp_all add: example_world_def a_pdf_json_def b_pdf_json_def)
  have a: "path a_pdf = Some ''/docs/a.pdf'' \<and> ''/docs/a.pdf'' \<noteq> []"
    by (simp add: a_pdf_def)
  have b: "path b_pdf = None \<or> path b_pdf = Some []"
    "path_join example_world (destination b_pdf) (filename b_pdf) = Inr ''/uploads/b.pdf''"
    by (simp_all add: b_pdf_def example_world_def)
  have c: "path empty_payload = None \<or> path empty_payload = Some []"
    "path_join example_world (destination empty_payload) (filename empty_payload) =
       Inl (JsError ''ERR_INVALID_ARG_TYPE'')"
    by (simp_all add: empty_payload_def example_world_def)
  have t: "trace example_world = []" by (simp add: example_world_def)
  note A = string_payload_as_object[OF j(1) surjective_pairing]
  note B = string_payload_as_object[OF j(2) surjective_pairing]
  note C = string_payload_as_object[OF j(3) surjective_pairing]
  note A4 = A[THEN conjunct2, THEN conjunct2, THEN conjunct2, THEN conjunct1, rule_format,
    OF a, THEN conjunct2]
  note B5 = B[THEN conjunct2, THEN conjunct2, THEN conjunct2, THEN conjunct2, rule_format,
    OF b(1), THEN conjunct2, THEN conjunct1, rule_format, OF b(2)]
  note C5 = C[THEN conjunct2, THEN conjunct2, THEN conjunct2, THEN conjunct2, rule_format,
    OF c(1), THEN conjunct2, THEN conjunct2, rule_format, OF c(2)]
  from A4 obtain ta
    where "trace (snd (processor (DataString a_pdf_json) example_world)) =
      trace example_world @ ExistsSync ''/docs/a.pdf'' # ta" by blast
  then have ha: "hd (trace (snd (processor (DataString a_pdf_json) example_world))) =
      ExistsSync ''/docs/a.pdf''" by (simp add: t)
  from B5 obtain tb
    where "trace (snd (processor (DataString b_pdf_json) example_world)) =
      trace example_world @ ExistsSync ''/uploads/b.pdf'' # tb" by blast
  then have hb: "hd (trace (snd (processor (DataString b_pdf_json) example_world))) =
      ExistsSync ''/uploads/b.pdf''" by (simp add: t)
  from C5 have hc: "processor (DataString ''{}'') example_world =
      (Inl (JsError ''ERR_INVALID_ARG_TYPE''), example_world)"
    by (simp add: prod_eq_iff)
  from A[THEN conjunct1] ha B[THEN conjunct1] hb hc show ?thesis by (intro conjI)
qed

end
